theory Spec2Isabelle
  imports Main
begin

unbundle bit_operations_syntax

section \<open>Python values held by the widget\<close>

text \<open>
  \<^verbatim>\<open>self.todos\<close> is whatever \<^verbatim>\<open>json.load\<close> returned, later changed in place by the menu
  actions: a JSON value. A Python dict keeps its insertion order, so an object is an
  association list; lookup and update act on the first entry with the key.

  A Python \<^verbatim>\<open>str\<close> is modelled by its UTF-8 encoding, the bytes that the file layer
  (\<^verbatim>\<open>encoding="utf-8"\<close>) reads and writes. Strings with lone surrogate code points, which
  have no UTF-8 encoding, and Python floats are outside the embedding; where the decoder
  would produce one, the model answers \<open>Unmodelled\<close> instead of inventing a value.
  The other errors are Python's exceptions, except \<open>OutOfFuel\<close>: the decoder below counts
  its nested calls down from a bound, and \<open>OutOfFuel\<close> would be its answer at zero. The
  bound it is started with is never used up (\<open>json_loads_fuel\<close>).
\<close>

datatype json =
    JNull
  | JBool bool
  | JInt int
  | JStr string
  | JArr "json list"
  | JObj "(string \<times> json) list"

datatype error =
    JSONDecodeError
  | TypeError
  | KeyError
  | IndexError
  | AttributeError
  | Unmodelled
  | OutOfFuel

definition and_then :: "error + 'a \<Rightarrow> ('a \<Rightarrow> error + 'b) \<Rightarrow> error + 'b" where
  "and_then m f = (case m of Inl e \<Rightarrow> Inl e | Inr x \<Rightarrow> f x)"

subsection \<open>Subscripting, truth value, iteration\<close>

definition is_cont :: "char \<Rightarrow> bool" where
  "is_cont c = (0x80 \<le> (of_char c :: nat) \<and> (of_char c :: nat) < 0xC0)"

text \<open>The code points of a string: each lead byte with the continuation bytes after it.\<close>

function utf8_chars :: "string \<Rightarrow> string list" where
  "utf8_chars [] = []"
| "utf8_chars (c # s) = (c # takeWhile is_cont s) # utf8_chars (dropWhile is_cont s)"
  by pat_completeness auto
termination
  by (relation "measure length") (auto simp: less_Suc_eq_le length_dropWhile_le)

text \<open>Python's index normalisation: \<open>-n .. -1\<close> count from the end.\<close>

definition norm_index :: "nat \<Rightarrow> int \<Rightarrow> nat option" where
  "norm_index n i =
     (if 0 \<le> i \<and> i < int n then Some (nat i)
      else if i < 0 \<and> - int n \<le> i then Some (nat (int n + i))
      else None)"

definition dict_get :: "(string \<times> json) list \<Rightarrow> string \<Rightarrow> error + json" where
  "dict_get kvs k = (case map_of kvs k of None \<Rightarrow> Inl KeyError | Some v \<Rightarrow> Inr v)"

fun dict_set :: "string \<Rightarrow> json \<Rightarrow> (string \<times> json) list \<Rightarrow> (string \<times> json) list" where
  "dict_set k v [] = [(k, v)]"
| "dict_set k v ((k', v') # kvs) =
     (if k = k' then (k, v) # kvs else (k', v') # dict_set k v kvs)"

text \<open>\<^verbatim>\<open>x[i]\<close> with an integer \<open>i\<close>.\<close>

definition getitem_idx :: "json \<Rightarrow> int \<Rightarrow> error + json" where
  "getitem_idx x i =
     (case x of
        JArr xs \<Rightarrow> (case norm_index (length xs) i of
                      None \<Rightarrow> Inl IndexError | Some k \<Rightarrow> Inr (xs ! k))
      | JStr s \<Rightarrow> (case norm_index (length (utf8_chars s)) i of
                      None \<Rightarrow> Inl IndexError | Some k \<Rightarrow> Inr (JStr (utf8_chars s ! k)))
      | JObj kvs \<Rightarrow> Inl KeyError
      | _ \<Rightarrow> Inl TypeError)"

text \<open>\<^verbatim>\<open>x[k]\<close> and \<^verbatim>\<open>x[k] = v\<close> with a string key \<open>k\<close>.\<close>

definition getitem_key :: "json \<Rightarrow> string \<Rightarrow> error + json" where
  "getitem_key x k = (case x of JObj kvs \<Rightarrow> dict_get kvs k | _ \<Rightarrow> Inl TypeError)"

definition setitem_key :: "json \<Rightarrow> string \<Rightarrow> json \<Rightarrow> error + json" where
  "setitem_key x k v = (case x of JObj kvs \<Rightarrow> Inr (JObj (dict_set k v kvs)) | _ \<Rightarrow> Inl TypeError)"

text \<open>
  The element \<^verbatim>\<open>self.todos[i]\<close> is changed in place; in the model the list gets the
  changed element at the same position.
\<close>

definition store_idx :: "json \<Rightarrow> int \<Rightarrow> json \<Rightarrow> error + json" where
  "store_idx x i y =
     (case x of
        JArr xs \<Rightarrow> (case norm_index (length xs) i of
                      None \<Rightarrow> Inl IndexError | Some k \<Rightarrow> Inr (JArr (xs[k := y])))
      | JObj kvs \<Rightarrow> Inl KeyError
      | _ \<Rightarrow> Inl TypeError)"

definition truthy :: "json \<Rightarrow> bool" where
  "truthy x =
     (case x of
        JNull \<Rightarrow> False
      | JBool b \<Rightarrow> b
      | JInt n \<Rightarrow> n \<noteq> 0
      | JStr s \<Rightarrow> s \<noteq> []
      | JArr xs \<Rightarrow> xs \<noteq> []
      | JObj kvs \<Rightarrow> kvs \<noteq> [])"

text \<open>\<^verbatim>\<open>for t in x\<close>: the elements of a list, the keys of a dict, the characters of a str.\<close>

definition py_iter :: "json \<Rightarrow> error + json list" where
  "py_iter x =
     (case x of
        JArr xs \<Rightarrow> Inr xs
      | JObj kvs \<Rightarrow> Inr (map (\<lambda>kv. JStr (fst kv)) kvs)
      | JStr s \<Rightarrow> Inr (map JStr (utf8_chars s))
      | _ \<Rightarrow> Inl TypeError)"

text \<open>\<^verbatim>\<open>x ^ True\<close>: negation on a bool, the lowest bit flipped on an int.\<close>

definition xor_True :: "json \<Rightarrow> error + json" where
  "xor_True x =
     (case x of
        JBool b \<Rightarrow> Inr (JBool (\<not> b))
      | JInt n \<Rightarrow> Inr (JInt (n XOR 1))
      | _ \<Rightarrow> Inl TypeError)"

section \<open>The widget\<close>

text \<open>A row of the list view: its label and its foreground colour.\<close>

type_synonym row = "string \<times> string"

record widget =
  todos :: json
  list_rows :: "row list"
  width :: int
  height :: int

text \<open>The answer of a prompt dialog.\<close>

datatype 'a reply = Cancelled | Confirmed 'a

text \<open>\<^verbatim>\<open>QInputDialog.getText\<close> returns the text and whether OK was pressed.\<close>

definition getText :: "string reply \<Rightarrow> string \<times> bool" where
  "getText r = (case r of Cancelled \<Rightarrow> ([], False) | Confirmed t \<Rightarrow> (t, True))"

text \<open>
  \<^verbatim>\<open>QInputDialog.getInt\<close> edits the number in a spin box with the range \<open>[lo, hi]\<close>, which
  holds no value outside it; a cancelled dialog gives back the initial value.
\<close>

definition getInt :: "int \<Rightarrow> int \<Rightarrow> int \<Rightarrow> int reply \<Rightarrow> int \<times> bool" where
  "getInt val lo hi r =
     (case r of Cancelled \<Rightarrow> (val, False) | Confirmed n \<Rightarrow> (max lo (min hi n), True))"

subsection \<open>refresh\<close>

text \<open>The marks in front of the label, U+2714 and U+25CB in UTF-8, each with a space.\<close>

definition mark_done :: string where
  "mark_done = [char_of (0xE2::nat), char_of (0x9C::nat), char_of (0x94::nat), CHR '' '']"

definition mark_open :: string where
  "mark_open = [char_of (0xE2::nat), char_of (0x97::nat), char_of (0x8B::nat), CHR '' '']"

definition str_add :: "string \<Rightarrow> json \<Rightarrow> error + string" where
  "str_add s x = (case x of JStr t \<Rightarrow> Inr (s @ t) | _ \<Rightarrow> Inl TypeError)"

definition render_row :: "json \<Rightarrow> error + row" where
  "render_row t =
     and_then (getitem_key t ''done'') (\<lambda>d.
     and_then (getitem_key t ''text'') (\<lambda>x.
     and_then (str_add (if truthy d then mark_done else mark_open) x) (\<lambda>label.
       Inr (label, if truthy d then ''#777777'' else ''#000000''))))"

fun render_all :: "json list \<Rightarrow> error + row list" where
  "render_all [] = Inr []"
| "render_all (t # ts) =
     and_then (render_row t) (\<lambda>r.
     and_then (render_all ts) (\<lambda>rs. Inr (r # rs)))"

definition refresh :: "widget \<Rightarrow> error + widget" where
  "refresh st =
     and_then (py_iter (todos st)) (\<lambda>ts.
     and_then (render_all ts) (\<lambda>rs. Inr (st\<lparr>list_rows := rs\<rparr>)))"

subsection \<open>add, edit, delete, toggle\<close>

definition list_append :: "json \<Rightarrow> json \<Rightarrow> error + json" where
  "list_append x y = (case x of JArr xs \<Rightarrow> Inr (JArr (xs @ [y])) | _ \<Rightarrow> Inl AttributeError)"

text \<open>The dict \<^verbatim>\<open>{"text": t, "done": d}\<close>.\<close>

definition todo_item :: "string \<Rightarrow> bool \<Rightarrow> json" where
  "todo_item t d = JObj [(''text'', JStr t), (''done'', JBool d)]"


definition add :: "widget \<Rightarrow> string reply \<Rightarrow> error + widget" where
  "add st r =
     (let (text, ok) = getText r in
      if ok \<and> text \<noteq> [] then
        and_then (list_append (todos st) (todo_item text False))
          (\<lambda>ts. refresh (st\<lparr>todos := ts\<rparr>))
      else Inr st)"

definition edit :: "widget \<Rightarrow> int \<Rightarrow> string reply \<Rightarrow> error + widget" where
  "edit st i r =
     and_then (getitem_idx (todos st) i) (\<lambda>t.
     and_then (getitem_key t ''text'') (\<lambda>shown.
       (let (text, ok) = getText r in
        if ok then
          and_then (setitem_key t ''text'' (JStr text)) (\<lambda>t'.
          and_then (store_idx (todos st) i t') (\<lambda>ts. refresh (st\<lparr>todos := ts\<rparr>)))
        else Inr st)))"

text \<open>\<^verbatim>\<open>self.todos.pop(i)\<close>.\<close>

definition list_pop :: "json \<Rightarrow> int \<Rightarrow> error + json" where
  "list_pop x i =
     (case x of
        JArr xs \<Rightarrow> (case norm_index (length xs) i of
                      None \<Rightarrow> Inl IndexError
                    | Some k \<Rightarrow> Inr (JArr (take k xs @ drop (Suc k) xs)))
      | JObj kvs \<Rightarrow> Inl KeyError
      | _ \<Rightarrow> Inl AttributeError)"

definition delete :: "widget \<Rightarrow> int \<Rightarrow> error + widget" where
  "delete st i = and_then (list_pop (todos st) i) (\<lambda>ts. refresh (st\<lparr>todos := ts\<rparr>))"

definition toggle :: "widget \<Rightarrow> int \<Rightarrow> error + widget" where
  "toggle st i =
     and_then (getitem_idx (todos st) i) (\<lambda>t.
     and_then (getitem_key t ''done'') (\<lambda>d.
     and_then (xor_True d) (\<lambda>d'.
     and_then (setitem_key t ''done'' d') (\<lambda>t'.
     and_then (store_idx (todos st) i t') (\<lambda>ts. refresh (st\<lparr>todos := ts\<rparr>))))))"

subsection \<open>The item menu\<close>

text \<open>
  The menu holds three closures over \<open>idx\<close>, the current row of the list view as
  \<^verbatim>\<open>currentRow()\<close> reports it (\<open>-1\<close> when there is none); \<^verbatim>\<open>menu.exec\<close> runs the one the
  user picks, or none when the menu is dismissed. The edit entry carries the answer to
  the prompt it opens.
\<close>

datatype call = Toggle int | Edit int "string reply" | Delete int

datatype pick = PickToggle | PickEdit "string reply" | PickDelete

definition item_menu_call :: "int \<Rightarrow> pick option \<Rightarrow> call option" where
  "item_menu_call idx p =
     (if idx < 0 then None
      else case p of
        None \<Rightarrow> None
      | Some PickToggle \<Rightarrow> Some (Toggle idx)
      | Some (PickEdit r) \<Rightarrow> Some (Edit idx r)
      | Some PickDelete \<Rightarrow> Some (Delete idx))"

definition run_call :: "widget \<Rightarrow> call \<Rightarrow> error + widget" where
  "run_call st c =
     (case c of Toggle i \<Rightarrow> toggle st i | Edit i r \<Rightarrow> edit st i r | Delete i \<Rightarrow> delete st i)"

definition item_menu :: "widget \<Rightarrow> int \<Rightarrow> pick option \<Rightarrow> error + widget" where
  "item_menu st idx p =
     (case item_menu_call idx p of None \<Rightarrow> Inr st | Some c \<Rightarrow> run_call st c)"

subsection \<open>change_size\<close>

definition resize :: "widget \<Rightarrow> int \<Rightarrow> int \<Rightarrow> widget" where
  "resize st w h = st\<lparr>width := w, height := h\<rparr>"

definition change_size :: "widget \<Rightarrow> int reply \<Rightarrow> int reply \<Rightarrow> widget" where
  "change_size st r1 r2 =
     (let (w, ok1) = getInt (width st) 200 800 r1 in
      if \<not> ok1 then st
      else let (h, ok2) = getInt (height st) 200 800 r2 in
        if \<not> ok2 then st
        else resize st w h)"

section \<open>The json library\<close>

abbreviation dquote :: char where "dquote \<equiv> CHR 0x22"
abbreviation backslash :: char where "backslash \<equiv> CHR 0x5C"
abbreviation newline :: char where "newline \<equiv> CHR 0x0A"

subsection \<open>json.dump with indent=2 and ensure_ascii=False\<close>

definition hex_digit :: "nat \<Rightarrow> char" where
  "hex_digit n = ''0123456789abcdef'' ! n"

definition escape_char :: "char \<Rightarrow> string" where
  "escape_char c =
     (if c = dquote then [backslash, dquote]
      else if c = backslash then [backslash, backslash]
      else if c = newline then [backslash, CHR ''n'']
      else if c = CHR 0x0D then [backslash, CHR ''r'']
      else if c = CHR 0x09 then [backslash, CHR ''t'']
      else if c = CHR 0x08 then [backslash, CHR ''b'']
      else if c = CHR 0x0C then [backslash, CHR ''f'']
      else if (of_char c :: nat) < 0x20 then
        [backslash, CHR ''u'', CHR ''0'', CHR ''0'',
         hex_digit (of_char c div 16), hex_digit (of_char c mod 16)]
      else [c])"

definition encode_basestring :: "string \<Rightarrow> string" where
  "encode_basestring s = dquote # concat (map escape_char s) @ [dquote]"

fun digits :: "nat \<Rightarrow> string" where
  "digits n = (if n < 10 then [char_of (48 + n)] else digits (n div 10) @ [char_of (48 + n mod 10)])"

definition int_str :: "int \<Rightarrow> string" where
  "int_str i = (if i < 0 then CHR ''-'' # digits (nat (- i)) else digits (nat i))"

definition newline_indent :: "nat \<Rightarrow> string" where
  "newline_indent l = newline # replicate (2 * l) CHR '' ''"

fun iterencode :: "nat \<Rightarrow> json \<Rightarrow> string"
  and iterencode_list :: "nat \<Rightarrow> json list \<Rightarrow> string"
  and iterencode_dict :: "nat \<Rightarrow> (string \<times> json) list \<Rightarrow> string"
where
  "iterencode l JNull = ''null''"
| "iterencode l (JBool b) = (if b then ''true'' else ''false'')"
| "iterencode l (JInt i) = int_str i"
| "iterencode l (JStr s) = encode_basestring s"
| "iterencode l (JArr xs) =
     (if xs = [] then ''[]''
      else ''['' @ newline_indent (Suc l) @ iterencode_list (Suc l) xs @ newline_indent l @ '']'')"
| "iterencode l (JObj kvs) =
     (if kvs = [] then ''{}''
      else ''{'' @ newline_indent (Suc l) @ iterencode_dict (Suc l) kvs @ newline_indent l @ ''}'')"
| "iterencode_list l [] = []"
| "iterencode_list l [x] = iterencode l x"
| "iterencode_list l (x # y # ys) =
     iterencode l x @ '','' @ newline_indent l @ iterencode_list l (y # ys)"
| "iterencode_dict l [] = []"
| "iterencode_dict l [(k, v)] = encode_basestring k @ '': '' @ iterencode l v"
| "iterencode_dict l ((k, v) # kv # kvs) =
     encode_basestring k @ '': '' @ iterencode l v @ '','' @ newline_indent l
       @ iterencode_dict l (kv # kvs)"

definition json_dumps :: "json \<Rightarrow> string" where
  "json_dumps x = iterencode 0 x"

subsection \<open>json.load\<close>

definition is_ws :: "char \<Rightarrow> bool" where
  "is_ws c = (c = CHR '' '' \<or> c = CHR 0x09 \<or> c = newline \<or> c = CHR 0x0D)"

definition skip_ws :: "string \<Rightarrow> string" where
  "skip_ws s = dropWhile is_ws s"

definition is_digit :: "char \<Rightarrow> bool" where
  "is_digit c = (48 \<le> (of_char c :: nat) \<and> (of_char c :: nat) \<le> 57)"

definition hex_val :: "char \<Rightarrow> nat option" where
  "hex_val c =
     (let n = of_char c in
      if 48 \<le> n \<and> n \<le> 57 then Some (n - 48)
      else if 97 \<le> n \<and> n \<le> 102 then Some (n - 87)
      else if 65 \<le> n \<and> n \<le> 70 then Some (n - 55)
      else None)"

text \<open>The four hexadecimal digits after \<^verbatim>\<open>\u\<close>.\<close>

definition decode_uXXXX :: "string \<Rightarrow> nat option" where
  "decode_uXXXX s =
     (case s of
        a # b # c # d # _ \<Rightarrow>
          (case (hex_val a, hex_val b, hex_val c, hex_val d) of
             (Some w, Some x, Some y, Some z) \<Rightarrow> Some (((w * 16 + x) * 16 + y) * 16 + z)
           | _ \<Rightarrow> None)
      | _ \<Rightarrow> None)"

definition utf8_encode :: "nat \<Rightarrow> string" where
  "utf8_encode u =
     (if u < 0x80 then [char_of u]
      else if u < 0x800 then [char_of (0xC0 + u div 64), char_of (0x80 + u mod 64)]
      else if u < 0x10000 then
        [char_of (0xE0 + u div 4096), char_of (0x80 + u div 64 mod 64), char_of (0x80 + u mod 64)]
      else
        [char_of (0xF0 + u div 262144), char_of (0x80 + u div 4096 mod 64),
         char_of (0x80 + u div 64 mod 64), char_of (0x80 + u mod 64)])"

definition unescape :: "char \<Rightarrow> char option" where
  "unescape e =
     (if e = dquote then Some dquote
      else if e = backslash then Some backslash
      else if e = CHR ''/'' then Some CHR ''/''
      else if e = CHR ''b'' then Some (CHR 0x08)
      else if e = CHR ''f'' then Some (CHR 0x0C)
      else if e = CHR ''n'' then Some newline
      else if e = CHR ''r'' then Some (CHR 0x0D)
      else if e = CHR ''t'' then Some (CHR 0x09)
      else None)"

definition prepend :: "string \<Rightarrow> error + string \<times> string \<Rightarrow> error + string \<times> string" where
  "prepend p res = (case res of Inl e \<Rightarrow> Inl e | Inr (t, r) \<Rightarrow> Inr (p @ t, r))"

text \<open>
  The text after an opening quote: the decoded string and what follows the closing quote.
  A raw control character, an unknown escape and a missing closing quote are errors.
\<close>

function scanstring :: "string \<Rightarrow> error + string \<times> string" where
  "scanstring [] = Inl JSONDecodeError"
| "scanstring (c # s) =
     (if c = dquote then Inr ([], s)
      else if c = backslash then
        (case s of
           [] \<Rightarrow> Inl JSONDecodeError
         | e # s1 \<Rightarrow>
             if e = CHR ''u'' then
               (case decode_uXXXX s1 of
                  None \<Rightarrow> Inl JSONDecodeError
                | Some u \<Rightarrow>
                    if 0xD800 \<le> u \<and> u \<le> 0xDBFF \<and> take 2 (drop 4 s1) = [backslash, CHR ''u''] then
                      (case decode_uXXXX (drop 6 s1) of
                         None \<Rightarrow> Inl JSONDecodeError
                       | Some u2 \<Rightarrow>
                           if 0xDC00 \<le> u2 \<and> u2 \<le> 0xDFFF then
                             prepend (utf8_encode (0x10000 + (u - 0xD800) * 1024 + (u2 - 0xDC00)))
                               (scanstring (drop 10 s1))
                           else Inl Unmodelled)
                    else if 0xD800 \<le> u \<and> u \<le> 0xDFFF then Inl Unmodelled
                    else prepend (utf8_encode u) (scanstring (drop 4 s1)))
             else
               (case unescape e of
                  None \<Rightarrow> Inl JSONDecodeError
                | Some ch \<Rightarrow> prepend [ch] (scanstring s1)))
      else if (of_char c :: nat) < 0x20 then Inl JSONDecodeError
      else prepend [c] (scanstring s))"
  by pat_completeness auto
termination
  by (relation "measure length") auto

text \<open>
  A number is \<^verbatim>\<open>-?(0|[1-9][0-9]*)\<close>, then optionally a fraction \<^verbatim>\<open>\.[0-9]+\<close> and an exponent
  \<^verbatim>\<open>[eE][-+]?[0-9]+\<close>. With a fraction or an exponent it is a Python float.
\<close>

definition digits_val :: "string \<Rightarrow> nat" where
  "digits_val ds = foldl (\<lambda>a c. a * 10 + (of_char c - 48)) 0 ds"

definition match_integer :: "string \<Rightarrow> (int \<times> string) option" where
  "match_integer s =
     (let neg = (s \<noteq> [] \<and> hd s = CHR ''-'');
          s1 = (if neg then tl s else s) in
      case s1 of
        [] \<Rightarrow> None
      | d # r \<Rightarrow>
          if d = CHR ''0'' then Some (0, r)
          else if is_digit d then
            Some ((if neg then - int (digits_val (takeWhile is_digit s1))
                   else int (digits_val (takeWhile is_digit s1))),
                  dropWhile is_digit s1)
          else None)"

definition starts_frac :: "string \<Rightarrow> bool" where
  "starts_frac r = (case r of p # d # _ \<Rightarrow> p = CHR ''.'' \<and> is_digit d | _ \<Rightarrow> False)"

definition starts_exp :: "string \<Rightarrow> bool" where
  "starts_exp r =
     (case r of
        e # r1 \<Rightarrow>
          (e = CHR ''e'' \<or> e = CHR ''E'') \<and>
          (case r1 of
             d # r2 \<Rightarrow>
               is_digit d \<or>
               ((d = CHR ''+'' \<or> d = CHR ''-'') \<and> (case r2 of d2 # _ \<Rightarrow> is_digit d2 | [] \<Rightarrow> False))
           | [] \<Rightarrow> False)
      | [] \<Rightarrow> False)"

definition match_number :: "string \<Rightarrow> (error + json \<times> string) option" where
  "match_number s =
     (case match_integer s of
        None \<Rightarrow> None
      | Some (i, r) \<Rightarrow>
          if starts_frac r \<or> starts_exp r then Some (Inl Unmodelled)
          else Some (Inr (JInt i, r)))"

text \<open>\<^verbatim>\<open>dict(pairs)\<close>: a repeated key keeps its first place and takes the last value.\<close>

definition dict_of :: "(string \<times> json) list \<Rightarrow> (string \<times> json) list" where
  "dict_of pairs = foldl (\<lambda>d kv. dict_set (fst kv) (snd kv) d) [] pairs"

text \<open>
  The decoder is recursive in the nesting of the value. The first argument bounds the
  number of nested calls; \<open>json_loads\<close> below starts it with a bound that is never reached.
  \<open>JSONArray\<close> and \<open>JSONObject\<close> get the text from the first element on.
\<close>

fun scan_once :: "nat \<Rightarrow> string \<Rightarrow> error + json \<times> string"
  and JSONArray :: "nat \<Rightarrow> string \<Rightarrow> error + json list \<times> string"
  and JSONObject :: "nat \<Rightarrow> string \<Rightarrow> error + (string \<times> json) list \<times> string"
where
  "scan_once 0 s = Inl OutOfFuel"
| "scan_once (Suc n) s =
     (case s of
        [] \<Rightarrow> Inl JSONDecodeError
      | c # r \<Rightarrow>
          if c = dquote then
            (case scanstring r of Inl e \<Rightarrow> Inl e | Inr (t, r1) \<Rightarrow> Inr (JStr t, r1))
          else if c = CHR ''{'' then
            (case skip_ws r of
               [] \<Rightarrow> Inl JSONDecodeError
             | d # r1 \<Rightarrow>
                 if d = CHR ''}'' then Inr (JObj [], r1)
                 else (case JSONObject n (d # r1) of
                         Inl e \<Rightarrow> Inl e
                       | Inr (kvs, r2) \<Rightarrow> Inr (JObj (dict_of kvs), r2)))
          else if c = CHR ''['' then
            (case skip_ws r of
               [] \<Rightarrow> Inl JSONDecodeError
             | d # r1 \<Rightarrow>
                 if d = CHR '']'' then Inr (JArr [], r1)
                 else (case JSONArray n (d # r1) of
                         Inl e \<Rightarrow> Inl e
                       | Inr (xs, r2) \<Rightarrow> Inr (JArr xs, r2)))
          else if take 4 s = ''null'' then Inr (JNull, drop 4 s)
          else if take 4 s = ''true'' then Inr (JBool True, drop 4 s)
          else if take 5 s = ''false'' then Inr (JBool False, drop 5 s)
          else (case match_number s of
                  Some res \<Rightarrow> res
                | None \<Rightarrow>
                    if take 3 s = ''NaN'' \<or> take 8 s = ''Infinity'' \<or> take 9 s = ''-Infinity''
                    then Inl Unmodelled
                    else Inl JSONDecodeError))"
| "JSONArray 0 s = Inl OutOfFuel"
| "JSONArray (Suc n) s =
     (case scan_once n s of
        Inl e \<Rightarrow> Inl e
      | Inr (x, r) \<Rightarrow>
          (case skip_ws r of
             [] \<Rightarrow> Inl JSONDecodeError
           | d # r1 \<Rightarrow>
               if d = CHR '']'' then Inr ([x], r1)
               else if d = CHR '','' then
                 (case JSONArray n (skip_ws r1) of
                    Inl e \<Rightarrow> Inl e
                  | Inr (xs, r2) \<Rightarrow> Inr (x # xs, r2))
               else Inl JSONDecodeError))"
| "JSONObject 0 s = Inl OutOfFuel"
| "JSONObject (Suc n) s =
     (case s of
        [] \<Rightarrow> Inl JSONDecodeError
      | q # s1 \<Rightarrow>
          if q \<noteq> dquote then Inl JSONDecodeError
          else
            (case scanstring s1 of
               Inl e \<Rightarrow> Inl e
             | Inr (k, r) \<Rightarrow>
                 (case skip_ws r of
                    [] \<Rightarrow> Inl JSONDecodeError
                  | c # r1 \<Rightarrow>
                      if c \<noteq> CHR '':'' then Inl JSONDecodeError
                      else
                        (case scan_once n (skip_ws r1) of
                           Inl e \<Rightarrow> Inl e
                         | Inr (v, r2) \<Rightarrow>
                             (case skip_ws r2 of
                                [] \<Rightarrow> Inl JSONDecodeError
                              | d # r3 \<Rightarrow>
                                  if d = CHR ''}'' then Inr ([(k, v)], r3)
                                  else if d = CHR '','' then
                                    (case JSONObject n (skip_ws r3) of
                                       Inl e \<Rightarrow> Inl e
                                     | Inr (kvs, r4) \<Rightarrow> Inr ((k, v) # kvs, r4))
                                  else Inl JSONDecodeError)))))"

definition json_loads :: "string \<Rightarrow> error + json" where
  "json_loads s =
     (case scan_once (Suc (2 * length s)) (skip_ws s) of
        Inl e \<Rightarrow> Inl e
      | Inr (x, r) \<Rightarrow> if skip_ws r = [] then Inr x else Inl JSONDecodeError)"

section \<open>The store\<close>

text \<open>
  The file system as far as the program sees it: the text of each file that exists.
\<close>

type_synonym files = "string \<rightharpoonup> string"

definition DATA_FILE :: string where
  "DATA_FILE = ''todos.json''"

definition load :: "files \<Rightarrow> error + json" where
  "load fs = (case fs DATA_FILE of Some s \<Rightarrow> json_loads s | None \<Rightarrow> Inr (JArr []))"

definition save :: "files \<Rightarrow> widget \<Rightarrow> files" where
  "save fs st = fs(DATA_FILE \<mapsto> json_dumps (todos st))"

text \<open>
  \<^verbatim>\<open>__init__\<close>: the window is 300 by 400, the list is loaded and shown. Nothing catches
  an exception of \<^verbatim>\<open>load\<close> or \<^verbatim>\<open>refresh\<close>: it ends the start of the program.
\<close>

definition init :: "files \<Rightarrow> error + widget" where
  "init fs =
     and_then (load fs) (\<lambda>ts.
       refresh \<lparr>todos = ts, list_rows = [], width = 300, height = 400\<rparr>)"

text \<open>\<^verbatim>\<open>exit\<close> saves the list; the process ends afterwards.\<close>

definition exit :: "files \<Rightarrow> widget \<Rightarrow> files" where
  "exit fs st = save fs st"

section \<open>Example data\<close>

definition milk :: widget where
  "milk = \<lparr>todos = JArr [todo_item ''Buy milk'' True],
           list_rows = [(mark_done @ ''Buy milk'', ''#777777'')],
           width = 300, height = 400\<rparr>"

definition two_items :: widget where
  "two_items = \<lparr>todos = JArr [todo_item ''Buy milk'' True, todo_item ''Call Ann'' False],
                list_rows = [(mark_done @ ''Buy milk'', ''#777777''),
                             (mark_open @ ''Call Ann'', ''#000000'')],
                width = 300, height = 400\<rparr>"

definition no_file :: files where
  "no_file = Map.empty"

definition broken_file :: files where
  "broken_file = [DATA_FILE \<mapsto> ''[{\"text\": \"Buy milk\", \"done\": tru'']"



section \<open>Properties of the list operations\<close>

subsection \<open>Auxiliary facts\<close>

lemma and_then_Inr [simp]: "and_then (Inr x) f = f x"
  by (simp add: and_then_def)

lemma and_then_Inl [simp]: "and_then (Inl e) f = Inl e"
  by (simp add: and_then_def)

lemma norm_index_valid: "0 \<le> i \<Longrightarrow> i < int n \<Longrightarrow> norm_index n i = Some (nat i)"
  by (simp add: norm_index_def)

lemma render_all_append:
  "render_all xs = Inr rs \<Longrightarrow> render_row y = Inr r \<Longrightarrow> render_all (xs @ [y]) = Inr (rs @ [r])"
proof (induction xs arbitrary: rs)
  case Nil
  then show ?case by simp
next
  case (Cons x xs)
  then show ?case
    by (auto simp: and_then_def split: sum.splits)
qed

lemma render_all_length: "render_all xs = Inr rs \<Longrightarrow> length rs = length xs"
  by (induction xs arbitrary: rs) (auto simp: and_then_def split: sum.splits)

lemma render_all_nth:
  "render_all xs = Inr rs \<Longrightarrow> k < length xs \<Longrightarrow> render_row (xs ! k) = Inr (rs ! k)"
proof (induction xs arbitrary: rs k)
  case Nil
  then show ?case by simp
next
  case (Cons x xs)
  then show ?case
    by (cases k) (auto simp: and_then_def split: sum.splits)
qed

lemma render_all_update:
  "render_all xs = Inr rs \<Longrightarrow> render_row y = Inr r \<Longrightarrow> render_all (xs[k := y]) = Inr (rs[k := r])"
proof (induction xs arbitrary: rs k)
  case Nil
  then show ?case by simp
next
  case (Cons x xs)
  then show ?case
    by (cases k) (auto simp: and_then_def split: sum.splits)
qed

lemma render_all_remove:
  "render_all xs = Inr rs \<Longrightarrow> render_all (take k xs @ drop (Suc k) xs) = Inr (take k rs @ drop (Suc k) rs)"
proof (induction xs arbitrary: rs k)
  case Nil
  then show ?case by simp
next
  case (Cons x xs)
  then show ?case
    by (cases k) (auto simp: and_then_def split: sum.splits)
qed

lemma render_row_item:
  "render_row (todo_item t d) =
     Inr ((if d then mark_done else mark_open) @ t, if d then ''#777777'' else ''#000000'')"
  by (simp add: render_row_def todo_item_def getitem_key_def dict_get_def str_add_def truthy_def)

lemma dict_get_set_same: "dict_get (dict_set k v kvs) k = Inr v"
  by (induction kvs) (auto simp: dict_get_def)

lemma dict_get_set_other: "k' \<noteq> k \<Longrightarrow> dict_get (dict_set k v kvs) k' = dict_get kvs k'"
  by (induction kvs) (auto simp: dict_get_def)

lemma dict_set_back: "dict_get kvs k = Inr v \<Longrightarrow> dict_set k v (dict_set k v' kvs) = kvs"
  by (induction kvs) (auto simp: dict_get_def split: option.splits if_splits)

lemma render_row_obj:
  "render_row t = Inr r \<Longrightarrow> \<exists>kvs d x. t = JObj kvs \<and> dict_get kvs ''done'' = Inr d \<and> dict_get kvs ''text'' = Inr (JStr x)"
  by (cases t) (auto simp: render_row_def getitem_key_def and_then_def str_add_def split: sum.splits json.splits)

lemma render_row_set_text:
  "dict_get kvs ''done'' = Inr d \<Longrightarrow>
   render_row (JObj (dict_set ''text'' (JStr t) kvs)) =
     Inr ((if truthy d then mark_done else mark_open) @ t, if truthy d then ''#777777'' else ''#000000'')"
  by (simp add: render_row_def getitem_key_def dict_get_set_same dict_get_set_other str_add_def)

lemma render_row_set_done:
  "dict_get kvs ''text'' = Inr (JStr x) \<Longrightarrow>
   render_row (JObj (dict_set ''done'' d kvs)) =
     Inr ((if truthy d then mark_done else mark_open) @ x, if truthy d then ''#777777'' else ''#000000'')"
  by (simp add: render_row_def getitem_key_def dict_get_set_same dict_get_set_other str_add_def)

lemma toggle_step:
  assumes "todos st = JArr xs" and "render_all xs = Inr rs"
    and "0 \<le> i" and "i < int (length xs)"
    and "xs ! nat i = JObj kvs" and "dict_get kvs ''done'' = Inr (JBool b)"
  shows "\<exists>rs'. toggle st i =
           Inr (st\<lparr>todos := JArr (xs[nat i := JObj (dict_set ''done'' (JBool (\<not> b)) kvs)]),
                   list_rows := rs'\<rparr>) \<and>
           render_all (xs[nat i := JObj (dict_set ''done'' (JBool (\<not> b)) kvs)]) = Inr rs'"
proof -
  from assms have k: "nat i < length xs" by simp
  from render_all_nth [OF assms(2) k] assms(5) obtain x
    where tx: "dict_get kvs ''text'' = Inr (JStr x)"
    using render_row_obj by fastforce
  have idx: "norm_index (length xs) i = Some (nat i)"
    using assms by (simp add: norm_index_valid)
  let ?ys = "xs[nat i := JObj (dict_set ''done'' (JBool (\<not> b)) kvs)]"
  from render_all_update [OF assms(2) render_row_set_done [OF tx], of "nat i" "JBool (\<not> b)"]
  obtain rs' where rs': "render_all ?ys = Inr rs'" by blast
  have "toggle st i = Inr (st\<lparr>todos := JArr ?ys, list_rows := rs'\<rparr>)"
    using assms(1,5,6) idx rs'
    by (simp add: toggle_def getitem_idx_def getitem_key_def xor_True_def setitem_key_def
        store_idx_def refresh_def py_iter_def)
  with rs' show ?thesis by blast
qed


subsection \<open>Example states\<close>

lemma render_milk: "render_all [todo_item ''Buy milk'' True] = Inr (list_rows milk)"
  by (simp add: milk_def render_row_item)

lemma render_two_items:
  "render_all [todo_item ''Buy milk'' True, todo_item ''Call Ann'' False] = Inr (list_rows two_items)"
  by (simp add: two_items_def render_row_item)

subsection \<open>add\<close>

text \<open>
  Claim C2. In a state whose list is \<open>xs\<close> (every item of it shown by the list view), add
  with a confirmed non-empty text \<open>t\<close> appends exactly the item \<open>{text: t, done: false}\<close> at
  the end, and the list view gets its row; a cancelled prompt and a confirmed empty text
  leave the state as it is.
\<close>

theorem add_appends:
  assumes "todos st = JArr xs" and "render_all xs = Inr rs"
  shows "(t \<noteq> [] \<longrightarrow>
            add st (Confirmed t) =
              Inr (st\<lparr>todos := JArr (xs @ [todo_item t False]),
                      list_rows := rs @ [(mark_open @ t, ''#000000'')]\<rparr>))
         \<and> add st Cancelled = Inr st
         \<and> add st (Confirmed []) = Inr st"
  using assms render_all_append [OF assms(2) render_row_item, of t False]
  by (simp add: add_def getText_def list_append_def refresh_def py_iter_def)

theorem add_appends_witness:
  "todos milk = JArr [todo_item ''Buy milk'' True]
   \<and> render_all [todo_item ''Buy milk'' True] = Inr (list_rows milk)
   \<and> add milk (Confirmed ''Call Ann'') = Inr two_items
   \<and> add milk Cancelled = Inr milk
   \<and> add milk (Confirmed []) = Inr milk"
proof -
  have h: "todos milk = JArr [todo_item ''Buy milk'' True]"
    by (simp add: milk_def)
  show ?thesis
    using add_appends [OF h render_milk, of "''Call Ann''"] h render_milk
    by (simp add: milk_def two_items_def)
qed

subsection \<open>edit\<close>

text \<open>
  Claim C3. For a valid index \<open>i\<close> (\<open>0 \<le> i < length\<close>), edit with a confirmed text \<open>t\<close>,
  the empty string included, sets the text of item \<open>i\<close> to \<open>t\<close>; every other key of item
  \<open>i\<close> (its done flag), every other item, the length of the list and the window size stay
  as they were. A cancelled prompt leaves the whole state unchanged.
\<close>

theorem edit_sets_text:
  assumes "todos st = JArr xs" and "render_all xs = Inr rs"
    and "0 \<le> i" and "i < int (length xs)"
  shows "edit st i Cancelled = Inr st \<and>
         (\<exists>st' ys. edit st i (Confirmed t) = Inr st' \<and> todos st' = JArr ys \<and>
            length ys = length xs \<and>
            getitem_key (ys ! nat i) ''text'' = Inr (JStr t) \<and>
            (\<forall>k. k \<noteq> ''text'' \<longrightarrow> getitem_key (ys ! nat i) k = getitem_key (xs ! nat i) k) \<and>
            (\<forall>j < length xs. j \<noteq> nat i \<longrightarrow> ys ! j = xs ! j) \<and>
            width st' = width st \<and> height st' = height st)"
proof -
  from assms have k: "nat i < length xs" by simp
  from render_all_nth [OF assms(2) k] obtain kvs d x
    where item: "xs ! nat i = JObj kvs" "dict_get kvs ''done'' = Inr d"
      "dict_get kvs ''text'' = Inr (JStr x)"
    using render_row_obj by blast
  have idx: "norm_index (length xs) i = Some (nat i)"
    using assms by (simp add: norm_index_valid)
  have cancel: "edit st i Cancelled = Inr st"
    using assms(1) item idx
    by (simp add: edit_def getitem_idx_def getitem_key_def getText_def)
  let ?t' = "JObj (dict_set ''text'' (JStr t) kvs)"
  let ?ys = "xs[nat i := ?t']"
  from render_all_update [OF assms(2) render_row_set_text [OF item(2)], of "nat i" t]
  obtain rs' where rs': "render_all ?ys = Inr rs'" by blast
  have run: "edit st i (Confirmed t) = Inr (st\<lparr>todos := JArr ?ys, list_rows := rs'\<rparr>)"
    using assms(1) item idx rs'
    by (simp add: edit_def getitem_idx_def getitem_key_def getText_def setitem_key_def
        store_idx_def refresh_def py_iter_def)
  have "getitem_key (?ys ! nat i) ''text'' = Inr (JStr t)"
    using k by (simp add: getitem_key_def dict_get_set_same)
  moreover have "\<forall>k. k \<noteq> ''text'' \<longrightarrow> getitem_key (?ys ! nat i) k = getitem_key (xs ! nat i) k"
    using k item(1) by (simp add: getitem_key_def dict_get_set_other)
  moreover have "\<forall>j < length xs. j \<noteq> nat i \<longrightarrow> ?ys ! j = xs ! j"
    by simp
  ultimately show ?thesis
    using cancel run by simp
qed

theorem edit_sets_text_witness:
  "todos two_items = JArr [todo_item ''Buy milk'' True, todo_item ''Call Ann'' False]
   \<and> render_all [todo_item ''Buy milk'' True, todo_item ''Call Ann'' False] = Inr (list_rows two_items)
   \<and> (0::int) \<le> 0 \<and> (0::int) < int (length [todo_item ''Buy milk'' True, todo_item ''Call Ann'' False])
   \<and> edit two_items 0 Cancelled = Inr two_items
   \<and> (\<exists>st' ys. edit two_items 0 (Confirmed []) = Inr st' \<and> todos st' = JArr ys \<and>
         getitem_key (ys ! 0) ''text'' = Inr (JStr []) \<and>
         getitem_key (ys ! 0) ''done'' = Inr (JBool True) \<and>
         ys ! 1 = todo_item ''Call Ann'' False)"
proof -
  let ?xs = "[todo_item ''Buy milk'' True, todo_item ''Call Ann'' False]"
  have h: "todos two_items = JArr ?xs"
    by (simp add: two_items_def)
  have i0: "(0::int) \<le> 0" and i1: "(0::int) < int (length ?xs)"
    by simp_all
  have d: "getitem_key (?xs ! 0) ''done'' = Inr (JBool True)"
    by (simp add: todo_item_def getitem_key_def dict_get_def)
  from edit_sets_text [OF h render_two_items i0 i1, of "[]"] d
  have "edit two_items 0 Cancelled = Inr two_items \<and>
        (\<exists>st' ys. edit two_items 0 (Confirmed []) = Inr st' \<and> todos st' = JArr ys \<and>
           getitem_key (ys ! 0) ''text'' = Inr (JStr []) \<and>
           getitem_key (ys ! 0) ''done'' = Inr (JBool True) \<and>
           ys ! 1 = todo_item ''Call Ann'' False)"
    by fastforce
  with h render_two_items show ?thesis by simp
qed

subsection \<open>toggle\<close>

text \<open>
  Claim C4. For a valid index \<open>i\<close> whose done field is a boolean \<open>b\<close>, the first toggle
  succeeds and makes the field \<open>\<not> b\<close>, the second succeeds too and the list is the
  original list again (so item \<open>i\<close> has its original done value); when the list view
  showed the original list, the whole state is the original state.
\<close>

theorem toggle_twice:
  assumes "todos st = JArr xs" and "render_all xs = Inr rs"
    and "0 \<le> i" and "i < int (length xs)"
    and "getitem_key (xs ! nat i) ''done'' = Inr (JBool b)"
  shows "\<exists>st1 st2 ys. toggle st i = Inr st1 \<and> toggle st1 i = Inr st2 \<and>
           todos st1 = JArr ys \<and> getitem_key (ys ! nat i) ''done'' = Inr (JBool (\<not> b)) \<and>
           todos st2 = JArr xs \<and> (list_rows st = rs \<longrightarrow> st2 = st)"
proof -
  from assms have k: "nat i < length xs" by simp
  from assms(5) obtain kvs where item: "xs ! nat i = JObj kvs" "dict_get kvs ''done'' = Inr (JBool b)"
    by (cases "xs ! nat i") (auto simp: getitem_key_def)
  let ?kvs' = "dict_set ''done'' (JBool (\<not> b)) kvs"
  let ?ys = "xs[nat i := JObj ?kvs']"
  from toggle_step [OF assms(1-4) item] obtain rs'
    where one: "toggle st i = Inr (st\<lparr>todos := JArr ?ys, list_rows := rs'\<rparr>)"
      and rs': "render_all ?ys = Inr rs'" by blast
  let ?st' = "st\<lparr>todos := JArr ?ys, list_rows := rs'\<rparr>"
  let ?zs = "?ys[nat i := JObj (dict_set ''done'' (JBool (\<not> \<not> b)) ?kvs')]"
  have "todos ?st' = JArr ?ys" by simp
  moreover have "i < int (length ?ys)" using assms(4) by simp
  moreover have "?ys ! nat i = JObj ?kvs'" using k by simp
  moreover have "dict_get ?kvs' ''done'' = Inr (JBool (\<not> b))" by (rule dict_get_set_same)
  ultimately obtain rs2 where two:
    "toggle ?st' i = Inr (?st'\<lparr>todos := JArr ?zs, list_rows := rs2\<rparr>)"
    and rs2: "render_all ?zs = Inr rs2"
    using toggle_step [OF _ rs' assms(3)] by blast
  have restored: "?zs = xs"
    using k item by (simp add: dict_set_back list_update_same_conv)
  with rs2 assms(2) have same_rows: "rs2 = rs" by simp
  have flipped: "getitem_key (?ys ! nat i) ''done'' = Inr (JBool (\<not> b))"
    using k by (simp add: getitem_key_def dict_get_set_same)
  have whole: "list_rows st = rs \<longrightarrow> ?st'\<lparr>todos := JArr ?zs, list_rows := rs2\<rparr> = st"
    using restored same_rows assms(1) by auto
  show ?thesis
    using one two flipped restored whole by (auto simp del: list_update_overwrite)
qed

theorem toggle_twice_witness:
  "todos two_items = JArr [todo_item ''Buy milk'' True, todo_item ''Call Ann'' False]
   \<and> render_all [todo_item ''Buy milk'' True, todo_item ''Call Ann'' False] = Inr (list_rows two_items)
   \<and> (0::int) \<le> 1 \<and> (1::int) < int (length [todo_item ''Buy milk'' True, todo_item ''Call Ann'' False])
   \<and> getitem_key ([todo_item ''Buy milk'' True, todo_item ''Call Ann'' False] ! nat 1) ''done''
        = Inr (JBool False)
   \<and> (\<exists>st1. toggle two_items 1 = Inr st1 \<and> toggle st1 1 = Inr two_items)"
proof -
  let ?xs = "[todo_item ''Buy milk'' True, todo_item ''Call Ann'' False]"
  have h: "todos two_items = JArr ?xs"
    by (simp add: two_items_def)
  have i0: "(0::int) \<le> 1" and i1: "(1::int) < int (length ?xs)"
    by simp_all
  have d: "getitem_key (?xs ! nat 1) ''done'' = Inr (JBool False)"
    by (simp add: todo_item_def getitem_key_def dict_get_def)
  from toggle_twice [OF h render_two_items i0 i1 d]
  have "\<exists>st1. toggle two_items 1 = Inr st1 \<and> toggle st1 1 = Inr two_items"
    by auto
  with h render_two_items d show ?thesis by simp
qed

subsection \<open>delete and the item menu\<close>

text \<open>
  Claim C5. In a state whose list view shows the list \<open>xs\<close>: for every valid index \<open>i\<close>
  (\<open>0 \<le> i < length\<close>) delete succeeds, the new list is \<open>xs\<close> without the item at \<open>i\<close>, one
  shorter, the items before \<open>i\<close> at their positions and the items after it moved down by
  one. The item menu does nothing when no row is selected (current row \<open>< 0\<close>), and
  whenever it calls delete, for a current row of the list view, the index is valid.
\<close>

theorem delete_removes_one:
  assumes "todos st = JArr xs" and "render_all xs = Inr (list_rows st)"
  shows "(\<forall>i. 0 \<le> i \<and> i < int (length xs) \<longrightarrow>
            (\<exists>st' ys. delete st i = Inr st' \<and> todos st' = JArr ys \<and>
               ys = take (nat i) xs @ drop (Suc (nat i)) xs \<and>
               Suc (length ys) = length xs \<and>
               (\<forall>j < nat i. ys ! j = xs ! j) \<and>
               (\<forall>j. nat i \<le> j \<and> j < length ys \<longrightarrow> ys ! j = xs ! Suc j)))
         \<and> (\<forall>idx p. idx < 0 \<longrightarrow> item_menu st idx p = Inr st)
         \<and> (\<forall>idx p i. idx < int (length (list_rows st)) \<and> item_menu_call idx p = Some (Delete i)
              \<longrightarrow> 0 \<le> i \<and> i < int (length xs))"
proof (intro conjI allI impI)
  fix i :: int
  assume i: "0 \<le> i \<and> i < int (length xs)"
  then have k: "nat i < length xs" by linarith
  let ?ys = "take (nat i) xs @ drop (Suc (nat i)) xs"
  have idx: "norm_index (length xs) i = Some (nat i)"
    using i by (simp add: norm_index_valid)
  have run: "delete st i = Inr (st\<lparr>todos := JArr ?ys,
      list_rows := take (nat i) (list_rows st) @ drop (Suc (nat i)) (list_rows st)\<rparr>)"
    using assms(1) idx render_all_remove [OF assms(2), of "nat i"]
    by (simp add: delete_def list_pop_def refresh_def py_iter_def)
  have len: "Suc (length ?ys) = length xs" using k by simp
  have low: "\<forall>j < nat i. ?ys ! j = xs ! j"
    using k by (simp add: nth_append)
  have high: "\<forall>j. nat i \<le> j \<and> j < length ?ys \<longrightarrow> ?ys ! j = xs ! Suc j"
    using k by (auto simp: nth_append min_def)
  show "\<exists>st' ys. delete st i = Inr st' \<and> todos st' = JArr ys \<and>
               ys = take (nat i) xs @ drop (Suc (nat i)) xs \<and>
               Suc (length ys) = length xs \<and>
               (\<forall>j < nat i. ys ! j = xs ! j) \<and>
               (\<forall>j. nat i \<le> j \<and> j < length ys \<longrightarrow> ys ! j = xs ! Suc j)"
    using run len low high by simp
next
  fix idx :: int and p
  assume "idx < 0"
  then show "item_menu st idx p = Inr st"
    by (simp add: item_menu_def item_menu_call_def)
next
  fix idx :: int and p i
  assume a: "idx < int (length (list_rows st)) \<and> item_menu_call idx p = Some (Delete i)"
  then have "i = idx \<and> 0 \<le> idx"
    by (auto simp: item_menu_call_def split: if_splits option.splits pick.splits)
  with a render_all_length [OF assms(2)] show "0 \<le> i" and "i < int (length xs)"
    by simp_all
qed

theorem delete_removes_one_witness:
  "todos two_items = JArr [todo_item ''Buy milk'' True, todo_item ''Call Ann'' False]
   \<and> render_all [todo_item ''Buy milk'' True, todo_item ''Call Ann'' False] = Inr (list_rows two_items)
   \<and> (0::int) \<le> 1 \<and> (1::int) < int (length [todo_item ''Buy milk'' True, todo_item ''Call Ann'' False])
   \<and> (\<exists>st'. delete two_items 1 = Inr st' \<and> todos st' = JArr [todo_item ''Buy milk'' True])
   \<and> (-1::int) < 0 \<and> item_menu two_items (-1) (Some PickDelete) = Inr two_items
   \<and> (1::int) < int (length (list_rows two_items))
   \<and> item_menu_call 1 (Some PickDelete) = Some (Delete 1)"
proof -
  let ?xs = "[todo_item ''Buy milk'' True, todo_item ''Call Ann'' False]"
  have h: "todos two_items = JArr ?xs"
    by (simp add: two_items_def)
  note del_fact = delete_removes_one [OF h render_two_items]
  from del_fact have "0 \<le> (1::int) \<and> (1::int) < int (length ?xs) \<longrightarrow>
      (\<exists>st' ys. delete two_items 1 = Inr st' \<and> todos st' = JArr ys \<and>
         ys = take (nat 1) ?xs @ drop (Suc (nat 1)) ?xs)"
    by blast
  then have del: "\<exists>st'. delete two_items 1 = Inr st' \<and> todos st' = JArr [todo_item ''Buy milk'' True]"
    by auto
  from del_fact have "(-1::int) < 0 \<longrightarrow> item_menu two_items (-1) (Some PickDelete) = Inr two_items"
    by blast
  then have none: "item_menu two_items (-1) (Some PickDelete) = Inr two_items"
    by simp
  have call: "item_menu_call 1 (Some PickDelete) = Some (Delete 1)"
    by (simp add: item_menu_call_def)
  have rows: "(1::int) < int (length (list_rows two_items))"
    by (simp add: two_items_def)
  show ?thesis
    using h render_two_items del none call rows by simp
qed

subsection \<open>change_size\<close>

text \<open>
  Claim C7. The width prompt comes first: when it is cancelled the size is unchanged,
  whatever the height prompt would have answered; when the height prompt is cancelled
  the size is unchanged too. When both are confirmed the window gets the two values of
  the dialogs, each in \<open>[200, 800]\<close>, which are the entered values when those lie in the
  range.
\<close>

theorem change_size_prompts:
  "change_size st Cancelled r2 = st \<and>
   change_size st (Confirmed w) Cancelled = st \<and>
   change_size st (Confirmed w) (Confirmed h) =
     st\<lparr>width := max 200 (min 800 w), height := max 200 (min 800 h)\<rparr> \<and>
   200 \<le> width (change_size st (Confirmed w) (Confirmed h)) \<and>
   width (change_size st (Confirmed w) (Confirmed h)) \<le> 800 \<and>
   200 \<le> height (change_size st (Confirmed w) (Confirmed h)) \<and>
   height (change_size st (Confirmed w) (Confirmed h)) \<le> 800 \<and>
   (200 \<le> w \<and> w \<le> 800 \<and> 200 \<le> h \<and> h \<le> 800 \<longrightarrow>
      change_size st (Confirmed w) (Confirmed h) = st\<lparr>width := w, height := h\<rparr>)"
  by (simp add: change_size_def getInt_def resize_def)

theorem change_size_prompts_witness:
  "(200::int) \<le> 640 \<and> (640::int) \<le> 800 \<and> (200::int) \<le> 480 \<and> (480::int) \<le> 800
   \<and> change_size milk (Confirmed 640) (Confirmed 480) = milk\<lparr>width := 640, height := 480\<rparr>
   \<and> change_size milk (Confirmed 640) Cancelled = milk
   \<and> change_size milk Cancelled (Confirmed 480) = milk"
  using change_size_prompts [of milk "Confirmed 480" 640 480]
    change_size_prompts [of milk Cancelled 640 480]
  by simp

section \<open>Properties of the store\<close>

subsection \<open>Decoding what the encoder wrote\<close>

lemma hex_val_digit: "m < 16 \<Longrightarrow> hex_val (hex_digit m) = Some m"
proof -
  assume "m < 16"
  then have "m \<in> {0, 1, 2, 3, 4, 5, 6, 7, 8, 9, 10, 11, 12, 13, 14, 15}"
    by (simp only: insert_iff empty_iff) arith
  then show ?thesis
    by (auto simp: hex_val_def hex_digit_def)
qed

lemma decode_control:
  assumes "(of_char c :: nat) < 0x20"
  shows "decode_uXXXX (CHR ''0'' # CHR ''0'' # hex_digit (of_char c div 16) # hex_digit (of_char c mod 16) # r)
           = Some (of_char c)"
proof -
  have a: "(of_char c :: nat) div 16 < 16" using assms by simp
  have b: "(of_char c :: nat) mod 16 < 16" by simp
  have z: "hex_val CHR ''0'' = Some 0" by (simp add: hex_val_def)
  show ?thesis
    by (simp add: decode_uXXXX_def z hex_val_digit [OF a] hex_val_digit [OF b])
qed

lemma prepend_Inr: "prepend p (Inr (t, r)) = Inr (p @ t, r)"
  by (simp add: prepend_def)

lemma scanstring_escape_char:
  assumes "scanstring s = Inr (t, r)"
  shows "scanstring (escape_char c @ s) = Inr (c # t, r)"
proof -
  consider (q) "c = dquote" | (b) "c = backslash" | (n) "c = newline" | (r) "c = CHR 0x0D"
    | (t) "c = CHR 0x09" | (bs) "c = CHR 0x08" | (f) "c = CHR 0x0C"
    | (ctl) "c \<notin> {dquote, backslash, newline, CHR 0x0D, CHR 0x09, CHR 0x08, CHR 0x0C}" "(of_char c :: nat) < 0x20"
    | (plain) "c \<notin> {dquote, backslash, newline, CHR 0x0D, CHR 0x09, CHR 0x08, CHR 0x0C}" "\<not> (of_char c :: nat) < 0x20"
    by blast
  then show ?thesis
  proof cases
    case ctl
    then have e: "escape_char c = [backslash, CHR ''u'', CHR ''0'', CHR ''0'',
         hex_digit (of_char c div 16), hex_digit (of_char c mod 16)]"
      by (simp add: escape_char_def)
    have u: "utf8_encode (of_char c) = [c]"
      using ctl(2) by (simp add: utf8_encode_def)
    show ?thesis
      using ctl(2) assms by (simp add: e decode_control u prepend_Inr)
  next
    case plain
    then show ?thesis
      using assms by (simp add: escape_char_def prepend_Inr)
  qed (simp_all add: escape_char_def unescape_def prepend_Inr assms)
qed

lemma scanstring_escape:
  "scanstring (concat (map escape_char t) @ dquote # r) = Inr (t, r)"
proof (induction t)
  case Nil
  show ?case by simp
next
  case (Cons c t)
  from scanstring_escape_char [OF Cons.IH, of c] show ?case by simp
qed

lemma scanstring_basestring:
  "scanstring (tl (encode_basestring t) @ r) = Inr (t, r)"
  using scanstring_escape [of t r] by (simp add: encode_basestring_def)



























subsection \<open>The bound of the decoder is never reached\<close>

text \<open>
  Every call of the decoder consumes a character before it calls itself again, so with
  the bound that \<open>json_loads\<close> passes the answer is never \<open>OutOfFuel\<close>: \<open>json_loads\<close> is the
  decoder, a value or an error of its own for every text.
\<close>

lemma prepend_InrD: "prepend p x = Inr (t, r) \<Longrightarrow> \<exists>u. x = Inr (u, r)"
  by (auto simp: prepend_def split: sum.splits)

lemma scanstring_shorter: "scanstring s = Inr (t, r) \<Longrightarrow> length r < length s"
proof (induction "length s" arbitrary: s t rule: less_induct)
  case less
  show ?case
  proof (cases s)
    case Nil
    with less.prems show ?thesis by simp
  next
    case (Cons c s')
    have rec: "length r < length x" if "scanstring x = Inr (u, r)" "length x \<le> length s'" for x u
      using less.hyps [of x u] that Cons by simp
    from less.prems Cons show ?thesis
      by (auto split: if_splits list.splits option.splits dest!: prepend_InrD rec
          simp del: scanstring.simps simp add: scanstring.simps(2) [of c s'])
  qed
qed

lemma skip_ws_le: "length (skip_ws r) \<le> length r"
  by (simp add: skip_ws_def length_dropWhile_le)

lemma skip_ws_ConsD: "skip_ws r = d # r1 \<Longrightarrow> length r1 < length r"
  using skip_ws_le [of r] by simp

lemma match_integer_shorter: "match_integer s = Some (i, r) \<Longrightarrow> length r < length s"
proof -
  assume a: "match_integer s = Some (i, r)"
  have drop: "length (dropWhile is_digit x) \<le> Suc (length x)" for x
    using length_dropWhile_le [of is_digit x] by simp
  from a show ?thesis
    by (cases s; cases "tl s")
      (auto simp: match_integer_def Let_def less_Suc_eq_le length_dropWhile_le drop
        split: if_splits list.splits)
qed

lemma match_number_shorter: "match_number s = Some (Inr (v, r)) \<Longrightarrow> length r < length s"
  by (auto simp: match_number_def split: option.splits if_splits dest: match_integer_shorter)

lemma match_number_fuel: "match_number s \<noteq> Some (Inl OutOfFuel)"
  by (auto simp: match_number_def split: option.splits if_splits)

lemma prepend_InlD: "prepend p x = Inl e \<Longrightarrow> x = Inl e"
  by (auto simp: prepend_def split: sum.splits)

lemma scanstring_fuel: "scanstring s \<noteq> Inl OutOfFuel"
proof (induction "length s" arbitrary: s rule: less_induct)
  case less
  show ?case
  proof (cases s)
    case Nil
    then show ?thesis by simp
  next
    case (Cons c s')
    have rec: "False" if "scanstring x = Inl OutOfFuel" "length x \<le> length s'" for x
      using less.hyps [of x] that Cons by simp
    show ?thesis
    proof
      assume "scanstring s = Inl OutOfFuel"
      with Cons show False
        by (auto split: if_splits list.splits option.splits dest!: prepend_InlD rec
            simp del: scanstring.simps simp add: scanstring.simps(2) [of c s'])
    qed
  qed
qed

lemma scan_once_literal:
  assumes "s \<noteq> []" and "hd s \<noteq> dquote" and "hd s \<noteq> CHR ''{''" and "hd s \<noteq> CHR ''[''"
  shows "scan_once (Suc n) s =
     (if take 4 s = ''null'' then Inr (JNull, drop 4 s)
      else if take 4 s = ''true'' then Inr (JBool True, drop 4 s)
      else if take 5 s = ''false'' then Inr (JBool False, drop 5 s)
      else (case match_number s of
              Some res \<Rightarrow> res
            | None \<Rightarrow>
                if take 3 s = ''NaN'' \<or> take 8 s = ''Infinity'' \<or> take 9 s = ''-Infinity''
                then Inl Unmodelled
                else Inl JSONDecodeError))"
proof (cases s)
  case Nil
  with assms(1) show ?thesis by simp
next
  case (Cons c r)
  with assms(2-4) have c: "c \<noteq> dquote" "c \<noteq> CHR ''{''" "c \<noteq> CHR ''[''"
    by simp_all
  show ?thesis
    unfolding Cons scan_once.simps(2) list.case
    by (simp only: c if_False)
qed

lemma fuel_enough:
  "(2 * length s < n \<longrightarrow>
      scan_once n s \<noteq> Inl OutOfFuel \<and>
      (\<forall>v r. scan_once n s = Inr (v, r) \<longrightarrow> length r < length s))
   \<and> (2 * length s + 1 < n \<longrightarrow>
      JSONArray n s \<noteq> Inl OutOfFuel \<and>
      (\<forall>xs r. JSONArray n s = Inr (xs, r) \<longrightarrow> length r < length s))
   \<and> (2 * length s + 1 < n \<longrightarrow>
      JSONObject n s \<noteq> Inl OutOfFuel \<and>
      (\<forall>kvs r. JSONObject n s = Inr (kvs, r) \<longrightarrow> length r < length s))"
proof (induction n arbitrary: s)
  case 0
  show ?case by simp
next
  case (Suc n)
  have v_ok: "scan_once n x \<noteq> Inl OutOfFuel" if "2 * length x < n" for x
    using Suc.IH [of x] that by simp
  have v_len: "length r < length x" if "scan_once n x = Inr (v, r)" "2 * length x < n" for x v r
    using Suc.IH [of x] that by simp
  have a_ok: "JSONArray n x \<noteq> Inl OutOfFuel" if "2 * length x + 1 < n" for x
    using Suc.IH [of x] that by simp
  have a_len: "length r < length x" if "JSONArray n x = Inr (v, r)" "2 * length x + 1 < n" for x v r
    using Suc.IH [of x] that by simp
  have o_ok: "JSONObject n x \<noteq> Inl OutOfFuel" if "2 * length x + 1 < n" for x
    using Suc.IH [of x] that by simp
  have o_len: "length r < length x" if "JSONObject n x = Inr (v, r)" "2 * length x + 1 < n" for x v r
    using Suc.IH [of x] that by simp
  have one: "scan_once (Suc n) s \<noteq> Inl OutOfFuel \<and>
      (\<forall>v r. scan_once (Suc n) s = Inr (v, r) \<longrightarrow> length r < length s)"
    if big: "2 * length s < Suc n"
  proof (cases s)
    case Nil
    then show ?thesis by simp
  next
    case (Cons c r0)
    have sk: "length (skip_ws r0) \<le> length r0" by (rule skip_ws_le)
    consider (str) "c = dquote" | (obj) "c = CHR ''{''" | (arr) "c = CHR ''[''"
      | (other) "c \<noteq> dquote" "c \<noteq> CHR ''{''" "c \<noteq> CHR ''[''"
      by blast
    then show ?thesis
    proof cases
      case str
      then show ?thesis
        using Cons scanstring_fuel [of r0] by (auto split: sum.splits dest: scanstring_shorter)
    next
      case obj
      show ?thesis
      proof (cases "skip_ws r0")
        case Nil
        then show ?thesis using Cons obj by simp
      next
        case (Cons d r1)
        have f: "2 * length (d # r1) + 1 < n"
          using big sk Cons \<open>s = c # r0\<close> by simp
        show ?thesis
          using Cons \<open>s = c # r0\<close> obj o_ok [OF f] o_len [OF _ f] sk
          by (auto split: sum.splits)
      qed
    next
      case arr
      show ?thesis
      proof (cases "skip_ws r0")
        case Nil
        then show ?thesis using Cons arr by simp
      next
        case (Cons d r1)
        have f: "2 * length (d # r1) + 1 < n"
          using big sk Cons \<open>s = c # r0\<close> by simp
        show ?thesis
          using Cons \<open>s = c # r0\<close> arr a_ok [OF f] a_len [OF _ f] sk
          by (auto split: sum.splits)
      qed
    next
      case other
      have ne: "s \<noteq> []" using Cons by simp
      have hd: "hd s \<noteq> dquote" "hd s \<noteq> CHR ''{''" "hd s \<noteq> CHR ''[''"
        using Cons other by simp_all
      note eq = scan_once_literal [OF ne hd, of n]
      have lit: "length (drop k s) < length s" if "0 < k" for k
        using ne that by simp
      have res: "scan_once (Suc n) s = Inr (JNull, drop 4 s)
          \<or> scan_once (Suc n) s = Inr (JBool True, drop 4 s)
          \<or> scan_once (Suc n) s = Inr (JBool False, drop 5 s)
          \<or> match_number s = Some (scan_once (Suc n) s)
          \<or> scan_once (Suc n) s = Inl Unmodelled
          \<or> scan_once (Suc n) s = Inl JSONDecodeError"
        unfolding eq by (simp split: option.splits)
      have num: "x \<noteq> Inl OutOfFuel \<and> (\<forall>v r. x = Inr (v, r) \<longrightarrow> length r < length s)"
        if "match_number s = Some x" for x
        using that match_number_fuel [of s] match_number_shorter [of s] by auto
      from res show ?thesis
      proof (elim disjE)
        assume "match_number s = Some (scan_once (Suc n) s)"
        then show ?thesis by (rule num)
      qed (use lit [of 4] lit [of 5] in \<open>simp_all del: scan_once.simps\<close>)
    qed
  qed
  have two: "JSONArray (Suc n) s \<noteq> Inl OutOfFuel \<and>
      (\<forall>xs r. JSONArray (Suc n) s = Inr (xs, r) \<longrightarrow> length r < length s)"
    if big: "2 * length s + 1 < Suc n"
  proof (cases "scan_once n s")
    case (Inl e)
    then show ?thesis using v_ok [of s] big by auto
  next
    case (Inr p)
    obtain x r where p: "p = (x, r)" by (cases p)
    have r: "length r < length s"
      using v_len [of s x r] Inr p big by simp
    show ?thesis
    proof (cases "skip_ws r")
      case Nil
      then show ?thesis using Inr p by simp
    next
      case (Cons d r1)
      have r1: "length r1 < length r" using Cons by (rule skip_ws_ConsD)
      have f: "2 * length (skip_ws r1) + 1 < n"
        using big r r1 skip_ws_le [of r1] by simp
      have len: "length (skip_ws r1) < length s"
        using r r1 skip_ws_le [of r1] by simp
      show ?thesis
        using Inr p Cons a_ok [OF f] a_len [OF _ f] r r1 len
        by (auto split: sum.splits)
    qed
  qed
  have three: "JSONObject (Suc n) s \<noteq> Inl OutOfFuel \<and>
      (\<forall>kvs r. JSONObject (Suc n) s = Inr (kvs, r) \<longrightarrow> length r < length s)"
    if big: "2 * length s + 1 < Suc n"
  proof (cases s)
    case Nil
    then show ?thesis by simp
  next
    case (Cons q s1)
    show ?thesis
    proof (cases "scanstring s1")
      case (Inl e)
      then show ?thesis using Cons scanstring_fuel [of s1] by auto
    next
      case (Inr p)
      obtain k r where p: "p = (k, r)" by (cases p)
      have r: "length r < length s1"
        using Inr p by (simp add: scanstring_shorter)
      show ?thesis
      proof (cases "skip_ws r")
        case Nil
        then show ?thesis using \<open>s = q # s1\<close> Inr p by simp
      next
        case colon: (Cons c r1)
        have r1: "length r1 < length r" using colon by (rule skip_ws_ConsD)
        have f1: "2 * length (skip_ws r1) < n"
          using big r r1 skip_ws_le [of r1] \<open>s = q # s1\<close> by simp
        show ?thesis
        proof (cases "scan_once n (skip_ws r1)")
          case (Inl e)
          then show ?thesis
            using \<open>s = q # s1\<close> \<open>scanstring s1 = Inr p\<close> p colon v_ok [OF f1] by auto
        next
          case val: (Inr pv)
          obtain v r2 where pv: "pv = (v, r2)" by (cases pv)
          have r2: "length r2 < length (skip_ws r1)"
            using v_len [of "skip_ws r1" v r2] val pv f1 by simp
          show ?thesis
          proof (cases "skip_ws r2")
            case Nil
            then show ?thesis
              using \<open>s = q # s1\<close> \<open>scanstring s1 = Inr p\<close> p colon val pv by simp
          next
            case sep: (Cons d r3)
            have r3: "length r3 < length r2" using sep by (rule skip_ws_ConsD)
            have chain: "length r3 < length s1"
              using r r1 r2 r3 skip_ws_le [of r1] by simp
            have f: "2 * length (skip_ws r3) + 1 < n"
              using big chain skip_ws_le [of r3] \<open>s = q # s1\<close> by simp
            have len: "length (skip_ws r3) < length s"
              using chain skip_ws_le [of r3] \<open>s = q # s1\<close> by simp
            show ?thesis
              using \<open>s = q # s1\<close> \<open>scanstring s1 = Inr p\<close> p colon val pv sep
                o_ok [OF f] o_len [OF _ f] chain len
              by (auto split: sum.splits)
          qed
        qed
      qed
    qed
  qed
  show ?case
    using one two three by blast
qed

lemma json_loads_fuel: "json_loads s \<noteq> Inl OutOfFuel"
proof -
  have "2 * length (skip_ws s) < Suc (2 * length s)"
    using skip_ws_le [of s] by simp
  with fuel_enough [of "skip_ws s" "Suc (2 * length s)"]
  have "scan_once (Suc (2 * length s)) (skip_ws s) \<noteq> Inl OutOfFuel"
    by blast
  then show ?thesis
    unfolding json_loads_def by (auto split: sum.splits prod.splits simp del: scan_once.simps)
qed

subsection \<open>save and load\<close>


text \<open>
  Claim C8. Saving a second time, with the list as it was, leaves the file system as the
  first save left it: the data file holds the same text, the encoding of the list.
\<close>

theorem save_twice:
  "save (save fs st) st = save fs st \<and> save fs st DATA_FILE = Some (json_dumps (todos st))"
  by (simp add: save_def)

text \<open>
  Claim C6. Without a data file load returns the empty list, and the program starts with
  it. With a data file that the decoder rejects, load raises the decoder's error, and
  so does the start of the program: nothing catches it.
\<close>

theorem load_missing_or_malformed:
  "(fs DATA_FILE = None \<longrightarrow>
      load fs = Inr (JArr []) \<and>
      init fs = Inr \<lparr>todos = JArr [], list_rows = [], width = 300, height = 400\<rparr>)
   \<and> (\<forall>s. fs DATA_FILE = Some s \<and> json_loads s = Inl JSONDecodeError \<longrightarrow>
          load fs = Inl JSONDecodeError \<and> init fs = Inl JSONDecodeError)"
  by (simp add: load_def init_def refresh_def py_iter_def)

lemma loads_broken:
  "json_loads ''[{\"text\": \"Buy milk\", \"done\": tru'' = Inl JSONDecodeError"
  by code_simp

theorem load_missing_or_malformed_witness:
  "no_file DATA_FILE = None
   \<and> load no_file = Inr (JArr [])
   \<and> init no_file = Inr \<lparr>todos = JArr [], list_rows = [], width = 300, height = 400\<rparr>
   \<and> broken_file DATA_FILE = Some ''[{\"text\": \"Buy milk\", \"done\": tru''
   \<and> json_loads ''[{\"text\": \"Buy milk\", \"done\": tru'' = Inl JSONDecodeError
   \<and> load broken_file = Inl JSONDecodeError
   \<and> init broken_file = Inl JSONDecodeError"
proof -
  have a: "no_file DATA_FILE = None"
    by (simp add: no_file_def)
  have b: "broken_file DATA_FILE = Some ''[{\"text\": \"Buy milk\", \"done\": tru''"
    by (simp add: broken_file_def)
  show ?thesis
    using load_missing_or_malformed [of no_file] load_missing_or_malformed [of broken_file]
      a b loads_broken
    by simp
qed






end
